theory Spec2Isabelle
  imports Main "HOL-Library.Word" "HOL-Library.Sublist"
begin

section \<open>Python values used by \<open>parse_apk_manifest.py\<close>\<close>

text \<open>
  A Python \<open>str\<close> is a sequence of Unicode code points, so a string is a list of
  natural numbers and \<open>length\<close> counts code points as \<open>len\<close> does.  A string
  literal of the source is written \<open>lit ''...''\<close>.  \<open>bytes\<close> is a list of 8-bit
  words.
\<close>

type_synonym pystr = "nat list"

type_synonym byte = "8 word"

definition lit :: "string \<Rightarrow> pystr" where
  "lit cs = map of_char cs"

text \<open>
  The character tables of the Python runtime are not part of the repository.  On ASCII
  (code points below 128) the predicates and case mappings are written out; above, they
  are read from a parameter \<open>U\<close>, so that every theorem holds for any table.
  \<open>ucd_decimal\<close> gives the value of a decimal digit (what \<open>int()\<close> accepts),
  \<open>ucd_isdigit\<close> what \<open>str.isdigit\<close> accepts, \<open>ucd_upper\<close> the full upper-case
  mapping of one code point, \<open>ucd_capitalize\<close> the result of \<open>str.capitalize\<close> on a
  string that is not pure ASCII.
\<close>

record unicode_db =
  ucd_isalpha :: "nat \<Rightarrow> bool"
  ucd_isdigit :: "nat \<Rightarrow> bool"
  ucd_isnumeric :: "nat \<Rightarrow> bool"
  ucd_decimal :: "nat \<Rightarrow> nat option"
  ucd_isupper :: "nat \<Rightarrow> bool"
  ucd_upper :: "nat \<Rightarrow> nat list"
  ucd_capitalize :: "nat list \<Rightarrow> nat list"

text \<open>
  Two concrete tables for the evaluation of examples: \<open>ascii_db\<close> gives no property to
  any code point above 127 (\<open>superscript_db\<close>, further below, adds the three superscript
  digits of Latin-1, which \<open>str.isdigit\<close> accepts and which have no decimal value).
\<close>

definition ascii_db :: unicode_db where
  "ascii_db = \<lparr>ucd_isalpha = (\<lambda>c. False), ucd_isdigit = (\<lambda>c. False),
     ucd_isnumeric = (\<lambda>c. False), ucd_decimal = (\<lambda>c. None), ucd_isupper = (\<lambda>c. False),
     ucd_upper = (\<lambda>c. [c]), ucd_capitalize = (\<lambda>s. s)\<rparr>"

definition isdigit_c :: "unicode_db \<Rightarrow> nat \<Rightarrow> bool" where
  "isdigit_c U c = (if c < 128 then 48 \<le> c \<and> c \<le> 57 else ucd_isdigit U c)"

definition isalpha_c :: "unicode_db \<Rightarrow> nat \<Rightarrow> bool" where
  "isalpha_c U c =
     (if c < 128 then (65 \<le> c \<and> c \<le> 90) \<or> (97 \<le> c \<and> c \<le> 122) else ucd_isalpha U c)"

definition isalnum_c :: "unicode_db \<Rightarrow> nat \<Rightarrow> bool" where
  "isalnum_c U c =
     (if c < 128 then (48 \<le> c \<and> c \<le> 57) \<or> (65 \<le> c \<and> c \<le> 90) \<or> (97 \<le> c \<and> c \<le> 122)
      else ucd_isalpha U c \<or> ucd_decimal U c \<noteq> None \<or> ucd_isdigit U c \<or> ucd_isnumeric U c)"

definition isupper_c :: "unicode_db \<Rightarrow> nat \<Rightarrow> bool" where
  "isupper_c U c = (if c < 128 then 65 \<le> c \<and> c \<le> 90 else ucd_isupper U c)"

definition upper_c :: "unicode_db \<Rightarrow> nat \<Rightarrow> pystr" where
  "upper_c U c =
     (if c < 128 then [if 97 \<le> c \<and> c \<le> 122 then c - 32 else c] else ucd_upper U c)"

definition lower_ascii :: "nat \<Rightarrow> nat" where
  "lower_ascii c = (if 65 \<le> c \<and> c \<le> 90 then c + 32 else c)"

definition upper_ascii :: "nat \<Rightarrow> nat" where
  "upper_ascii c = (if 97 \<le> c \<and> c \<le> 122 then c - 32 else c)"

text \<open>\<open>s.isdigit()\<close> and \<open>s.isalpha()\<close> are false on the empty string.\<close>

definition isdigit :: "unicode_db \<Rightarrow> pystr \<Rightarrow> bool" where
  "isdigit U s = (s \<noteq> [] \<and> list_all (isdigit_c U) s)"

definition isalpha :: "unicode_db \<Rightarrow> pystr \<Rightarrow> bool" where
  "isalpha U s = (s \<noteq> [] \<and> list_all (isalpha_c U) s)"

definition upper :: "unicode_db \<Rightarrow> pystr \<Rightarrow> pystr" where
  "upper U s = concat (map (upper_c U) s)"

definition capitalize :: "unicode_db \<Rightarrow> pystr \<Rightarrow> pystr" where
  "capitalize U s =
     (if list_all (\<lambda>c. c < 128) s
      then (case s of [] \<Rightarrow> [] | c # cs \<Rightarrow> upper_ascii c # map lower_ascii cs)
      else ucd_capitalize U s)"

text \<open>\<open>s.replace(old, '')\<close>: occurrences are removed from left to right, without overlap.\<close>

function remove_all :: "pystr \<Rightarrow> pystr \<Rightarrow> pystr" where
  "remove_all old [] = []"
| "remove_all old (c # cs) =
     (if old \<noteq> [] \<and> prefix old (c # cs) then remove_all old (drop (length old) (c # cs))
      else c # remove_all old cs)"
  by pat_completeness auto
termination
  by (relation "measure (\<lambda>(old, s). length s)") (auto simp: neq_Nil_conv)

text \<open>\<open>s.split(sep)\<close> for a separator of one character.\<close>

fun split_on :: "nat \<Rightarrow> pystr \<Rightarrow> pystr list" where
  "split_on sep [] = [[]]"
| "split_on sep (c # cs) =
     (if c = sep then [] # split_on sep cs
      else (case split_on sep cs of p # ps \<Rightarrow> (c # p) # ps | [] \<Rightarrow> [[c]]))"

text \<open>
  \<open>int(s)\<close> for a string that passed \<open>s.isdigit()\<close>: every character must be a
  decimal digit, otherwise \<open>ValueError\<close> is raised.
\<close>

datatype exn = Struct_error | Value_error pystr

definition decimal_c :: "unicode_db \<Rightarrow> nat \<Rightarrow> nat option" where
  "decimal_c U c = (if c < 128 then (if 48 \<le> c \<and> c \<le> 57 then Some (c - 48) else None)
                    else ucd_decimal U c)"

fun digits_value :: "unicode_db \<Rightarrow> nat \<Rightarrow> pystr \<Rightarrow> nat option" where
  "digits_value U acc [] = Some acc"
| "digits_value U acc (c # cs) =
     (case decimal_c U c of None \<Rightarrow> None | Some d \<Rightarrow> digits_value U (10 * acc + d) cs)"

definition py_int :: "unicode_db \<Rightarrow> pystr \<Rightarrow> exn + nat" where
  "py_int U s = (case digits_value U 0 s of None \<Rightarrow> Inl (Value_error s) | Some v \<Rightarrow> Inr v)"

text \<open>Truth value of a variable that holds \<open>None\<close> or a string.\<close>

definition truthy :: "pystr option \<Rightarrow> bool" where
  "truthy v = (case v of None \<Rightarrow> False | Some s \<Rightarrow> s \<noteq> [])"

text \<open>\<open>sub in s\<close>, \<open>s.startswith(p)\<close> and \<open>s.endswith(p)\<close>.\<close>

definition contains :: "pystr \<Rightarrow> pystr \<Rightarrow> bool" where
  "contains sub s = sublist sub s"

definition startswith :: "pystr \<Rightarrow> pystr \<Rightarrow> bool" where
  "startswith s p = prefix p s"

definition endswith :: "pystr \<Rightarrow> pystr \<Rightarrow> bool" where
  "endswith s p = suffix p s"

text \<open>
  A \<open>for\<close> loop whose body may raise: the state is threaded through the elements and
  the first exception ends the loop.
\<close>

fun for_each :: "('s \<Rightarrow> 'a \<Rightarrow> exn + 's) \<Rightarrow> 's \<Rightarrow> 'a list \<Rightarrow> exn + 's" where
  "for_each body st [] = Inr st"
| "for_each body st (x # xs) =
     (case body st x of Inl e \<Rightarrow> Inl e | Inr st' \<Rightarrow> for_each body st' xs)"

section \<open>The metadata classifier (lines 66 to 197 of \<open>parse_binary_xml\<close>)\<close>

record metadata =
  package :: "pystr option"
  versionName :: "pystr option"
  versionCode :: "pystr option"
  appLabel :: "pystr option"
  permissions :: "pystr list"

text \<open>
  The loop of lines 77 to 81 sets \<open>uses_permission_idx\<close> and \<open>android_name_idx\<close>, which
  are never read afterwards and whose computation cannot raise; it has no counterpart
  here.  In the tests below, 46 is the code point of \<open>.\<close> and 95 that of \<open>_\<close>.
\<close>

subsection \<open>Permissions\<close>

definition is_permission :: "pystr \<Rightarrow> bool" where
  "is_permission s =
     (if startswith s (lit ''android.permission.'') then True
      else if contains (lit ''.permission.'') s \<and> \<not> endswith s (lit ''Activity'')
              \<and> \<not> endswith s (lit ''Service'') \<and> \<not> endswith s (lit ''Receiver'')
              \<and> \<not> endswith s (lit ''Provider'') then True
      else False)"

definition permissions_step :: "pystr list \<Rightarrow> pystr \<Rightarrow> pystr list" where
  "permissions_step perms s = (if is_permission s \<and> s \<notin> set perms then perms @ [s] else perms)"

definition collect_permissions :: "pystr list \<Rightarrow> pystr list" where
  "collect_permissions strings = foldl permissions_step [] strings"

subsection \<open>Application label\<close>

definition excluded_labels :: "pystr list" where
  "excluded_labels = map lit
     [''name'', ''label'', ''application'', ''activity'', ''service'', ''receiver'', ''provider'',
      ''RELEASE'', ''DEBUG'', ''MAIN'', ''VERSION'', ''SDK'', ''MIN'', ''MAX'', ''TARGET'',
      ''true'', ''false'', ''null'', ''value'', ''config'', ''default'', ''string'', ''layout'',
      ''drawable'', ''color'', ''dimen'', ''style'', ''array'', ''integer'', ''bool'', ''id'',
      ''attr'', ''anim'', ''menu'', ''raw'', ''xml'', ''font'', ''navigation'', ''transition'']"

definition excluded :: "unicode_db \<Rightarrow> pystr \<Rightarrow> bool" where
  "excluded U s = (upper U s \<in> set (map (upper U) excluded_labels))"

text \<open>Index of the first string equal to \<open>'application'\<close>, or \<open>-1\<close>.\<close>

definition app_index :: "pystr list \<Rightarrow> int" where
  "app_index strings =
     (case find (\<lambda>(i, s). s = lit ''application'') (enumerate 0 strings) of
        None \<Rightarrow> - 1
      | Some (i, s) \<Rightarrow> int i)"

text \<open>
  The three label passes.  Each \<open>for\<close> loop ends at its first hit (\<open>break\<close>), which is
  \<open>find\<close>.  Every \<open>s[0]\<close> of the source stands behind a length test that makes \<open>s\<close>
  non-empty, so \<open>hd s\<close> is that character.
\<close>

definition near_candidate :: "unicode_db \<Rightarrow> pystr \<Rightarrow> bool" where
  "near_candidate U s =
     (2 \<le> length s \<and> length s \<le> 50
      \<and> \<not> contains (lit ''/'') s
      \<and> \<not> startswith s (lit ''android'')
      \<and> \<not> startswith s (lit ''com.'')
      \<and> \<not> startswith s (lit ''@'')
      \<and> \<not> endswith s (lit ''.xml'')
      \<and> \<not> list_ex (isdigit_c U) s
      \<and> \<not> excluded U s)"

definition proximity_pass :: "unicode_db \<Rightarrow> pystr list \<Rightarrow> pystr option" where
  "proximity_pass U strings =
     (let i = app_index strings in
      if i \<ge> 0 then
        find (\<lambda>s. near_candidate U s \<and> isupper_c U (hd s))
          (map (\<lambda>offset. strings ! (nat i + offset)) [1 ..< min 21 (length strings - nat i)])
      else None)"

definition global_candidate :: "unicode_db \<Rightarrow> pystr \<Rightarrow> bool" where
  "global_candidate U s =
     (3 \<le> length s \<and> length s \<le> 50
      \<and> \<not> contains (lit ''/'') s \<and> \<not> contains (lit ''.'') s
      \<and> \<not> startswith s (lit ''android'')
      \<and> \<not> startswith s (lit ''com.'')
      \<and> \<not> startswith s (lit ''@'')
      \<and> \<not> endswith s (lit ''.xml'')
      \<and> \<not> excluded U s)"

definition global_pass :: "unicode_db \<Rightarrow> pystr list \<Rightarrow> pystr option" where
  "global_pass U strings =
     find (\<lambda>s. global_candidate U s \<and> isupper_c U (hd s) \<and> contains (lit '' '') s) strings"

definition last_resort_pass :: "unicode_db \<Rightarrow> pystr list \<Rightarrow> pystr option" where
  "last_resort_pass U strings =
     find (\<lambda>s. 3 \<le> length s \<and> length s \<le> 30 \<and> isupper_c U (hd s) \<and> isalpha U s
                \<and> \<not> excluded U s) strings"

definition label_passes :: "unicode_db \<Rightarrow> pystr list \<Rightarrow> pystr option" where
  "label_passes U strings =
     (let app_label = proximity_pass U strings;
          app_label = (if \<not> truthy app_label then global_pass U strings else app_label);
          app_label = (if \<not> truthy app_label then last_resort_pass U strings else app_label)
      in app_label)"

subsection \<open>Package name and version name\<close>

definition is_package :: "unicode_db \<Rightarrow> pystr \<Rightarrow> bool" where
  "is_package U s =
     (count_list s 46 \<ge> 2
      \<and> list_ex (isalpha_c U) s
      \<and> list_all (\<lambda>c. isalnum_c U c \<or> c = 46 \<or> c = 95) s
      \<and> \<not> isdigit_c U (hd s)
      \<and> \<not> startswith s (lit ''android.permission.''))"

definition version_digits :: "pystr \<Rightarrow> pystr" where
  "version_digits s =
     remove_all (lit ''rc'') (remove_all (lit ''a'') (remove_all (lit ''b'')
       (take 5 (remove_all (lit ''_'') (remove_all (lit ''-'') (remove_all (lit ''.'') s))))))"

definition package_version_step ::
  "unicode_db \<Rightarrow> pystr option \<times> pystr option \<Rightarrow> pystr \<Rightarrow> pystr option \<times> pystr option" where
  "package_version_step U st s =
     (let package_name = fst st; version_name = snd st;
          package_name =
            (if \<not> truthy package_name \<and> contains (lit ''.'') s \<and> length s > 5 \<and> length s < 200
             then (if is_package U s then Some s else package_name)
             else package_name);
          version_name =
            (if \<not> truthy version_name \<and> length s < 50 \<and> contains (lit ''.'') s
             then (if isdigit_c U (hd s) \<and> isdigit U (version_digits s) then Some s
                   else version_name)
             else version_name)
      in (package_name, version_name))"

definition package_version :: "unicode_db \<Rightarrow> pystr list \<Rightarrow> pystr option \<times> pystr option" where
  "package_version U strings = foldl (package_version_step U) (None, None) strings"

subsection \<open>Version code\<close>

text \<open>
  \<open>if not version_code or int(s) > int(version_code)\<close>: both conversions are made once
  a version code is held, the left one first, and either may raise.
\<close>

definition version_code_step :: "unicode_db \<Rightarrow> pystr option \<Rightarrow> pystr \<Rightarrow> exn + pystr option" where
  "version_code_step U version_code s =
     (if isdigit U s \<and> 5 \<le> length s \<and> length s \<le> 10 then
        (case version_code of
           None \<Rightarrow> Inr (Some s)
         | Some v \<Rightarrow>
             if v = [] then Inr (Some s)
             else (case py_int U s of
                     Inl e \<Rightarrow> Inl e
                   | Inr a \<Rightarrow> (case py_int U v of
                                 Inl e \<Rightarrow> Inl e
                               | Inr b \<Rightarrow> if a > b then Inr (Some s) else Inr version_code)))
      else Inr version_code)"

definition find_version_code :: "unicode_db \<Rightarrow> pystr list \<Rightarrow> exn + pystr option" where
  "find_version_code U strings = for_each (version_code_step U) None strings"

subsection \<open>The record\<close>

definition label_from_package :: "unicode_db \<Rightarrow> pystr option \<Rightarrow> pystr option \<Rightarrow> pystr option" where
  "label_from_package U app_label package_name =
     (if \<not> truthy app_label \<and> truthy package_name then
        (let parts = split_on 46 (the package_name) in
         if length parts > 0 then Some (capitalize U (last parts)) else app_label)
      else app_label)"

definition classify :: "unicode_db \<Rightarrow> pystr list \<Rightarrow> exn + metadata" where
  "classify U strings =
     (let perms = collect_permissions strings;
          app_label = label_passes U strings;
          pv = package_version U strings
      in case find_version_code U strings of
           Inl e \<Rightarrow> Inl e
         | Inr version_code \<Rightarrow>
             Inr \<lparr>package = fst pv, versionName = snd pv, versionCode = version_code,
                  appLabel = label_from_package U app_label (fst pv), permissions = perms\<rparr>)"

section \<open>The chunk scanner (lines 23 to 64 of \<open>parse_binary_xml\<close>)\<close>

text \<open>
  \<open>data[a:b]\<close> for \<open>0 \<le> a\<close>: a slice never raises and is cut at the end of the
  buffer.  \<open>struct.unpack\<close> raises \<open>struct.error\<close> unless it gets exactly the bytes
  its format asks for.
\<close>

definition py_slice :: "'a list \<Rightarrow> nat \<Rightarrow> nat \<Rightarrow> 'a list" where
  "py_slice xs a b = take (b - a) (drop a xs)"

definition unpack_I :: "byte list \<Rightarrow> exn + nat" where
  "unpack_I bs =
     (case bs of
        [b0, b1, b2, b3] \<Rightarrow> Inr (unat b0 + 256 * unat b1 + 65536 * unat b2 + 16777216 * unat b3)
      | _ \<Rightarrow> Inl Struct_error)"

definition unpack_H :: "byte list \<Rightarrow> exn + nat" where
  "unpack_H bs = (case bs of [b0, b1] \<Rightarrow> Inr (unat b0 + 256 * unat b1) | _ \<Rightarrow> Inl Struct_error)"

text \<open>
  \<open>bytes.decode('utf-16-le', errors='ignore')\<close>: the bytes are read as 16-bit units, a
  trailing odd byte is dropped, a high surrogate followed by a low one gives one code
  point, and any other surrogate is dropped.
\<close>

fun units16 :: "byte list \<Rightarrow> nat list" where
  "units16 (lo # hi # bs) = (unat lo + 256 * unat hi) # units16 bs"
| "units16 bs = []"

fun decode_units :: "nat list \<Rightarrow> pystr" where
  "decode_units [] = []"
| "decode_units [u] = (if 0xD800 \<le> u \<and> u < 0xE000 then [] else [u])"
| "decode_units (u # v # us) =
     (if 0xD800 \<le> u \<and> u < 0xDC00 then
        (if 0xDC00 \<le> v \<and> v < 0xE000
         then (0x10000 + (u - 0xD800) * 1024 + (v - 0xDC00)) # decode_units us
         else decode_units (v # us))
      else if 0xDC00 \<le> u \<and> u < 0xE000 then decode_units (v # us)
      else u # decode_units (v # us))"

definition decode_utf16le :: "byte list \<Rightarrow> pystr" where
  "decode_utf16le bs = decode_units (units16 bs)"

text \<open>Lines 45 to 47: the table of string offsets.\<close>

definition read_offset :: "byte list \<Rightarrow> nat \<Rightarrow> nat list \<Rightarrow> nat \<Rightarrow> exn + nat list" where
  "read_offset data offset offsets i =
     (case unpack_I (py_slice data (offset + 28 + i * 4) (offset + 32 + i * 4)) of
        Inl e \<Rightarrow> Inl e
      | Inr str_offset \<Rightarrow> Inr (offsets @ [str_offset]))"

text \<open>Lines 51 to 61: one string of the pool; an entry that fails a test is skipped.\<close>

definition read_string :: "byte list \<Rightarrow> nat \<Rightarrow> pystr list \<Rightarrow> nat \<Rightarrow> exn + pystr list" where
  "read_string data data_start strings str_offset =
     (let str_pos = data_start + str_offset in
      if int str_pos < int (length data) - 2 then
        (case unpack_H (py_slice data str_pos (str_pos + 2)) of
           Inl e \<Rightarrow> Inl e
         | Inr str_len \<Rightarrow>
             if str_len > 0 \<and> str_len < 1000
             then Inr (strings @
                    [decode_utf16le (py_slice data (str_pos + 2) (str_pos + 2 + str_len * 2))])
             else Inr strings)
      else Inr strings)"

definition read_string_pool :: "byte list \<Rightarrow> nat \<Rightarrow> exn + pystr list" where
  "read_string_pool data offset =
     (case unpack_I (py_slice data (offset + 8) (offset + 12)) of
        Inl e \<Rightarrow> Inl e
      | Inr string_count \<Rightarrow>
          (case for_each (read_offset data offset) [] [0 ..< string_count] of
             Inl e \<Rightarrow> Inl e
           | Inr offsets \<Rightarrow>
               for_each (read_string data (offset + 28 + string_count * 4)) [] offsets))"

text \<open>
  The \<open>while\<close> loop of line 35.  Nothing in the definition says that it ends: a run
  that does not return has the value \<open>None\<close>.
\<close>

definition advance :: "nat \<Rightarrow> nat \<Rightarrow> nat" where
  "advance offset chunk_size = offset + (if chunk_size > 0 then chunk_size else 1)"

partial_function (option) scan_chunks :: "byte list \<Rightarrow> nat \<Rightarrow> (exn + pystr list) option" where
  "scan_chunks data offset =
     (if int offset < int (length data) - 8 then
        (case unpack_I (py_slice data offset (offset + 4)) of
           Inl e \<Rightarrow> Some (Inl e)
         | Inr chunk_type \<Rightarrow>
             (case unpack_I (py_slice data (offset + 4) (offset + 8)) of
                Inl e \<Rightarrow> Some (Inl e)
              | Inr chunk_size \<Rightarrow>
                  if chunk_type = 0x001C0001 then Some (read_string_pool data offset)
                  else scan_chunks data (advance offset chunk_size)))
      else Some (Inr []))"

declare scan_chunks.simps [code]

text \<open>
  The cursors of the loop, as a relation: the loop starts at \<open>start\<close>, and from a
  cursor that passes the loop test and whose chunk is not a string pool it goes on to
  the cursor advanced by the chunk size.  The string pool that the scan of
  \<open>parse_binary_xml\<close> finds is the cursor, reached from 8, that passes the loop test and
  carries the type \<open>0x001C0001\<close>; marker bytes at a position that the loop does not
  reach do not count.  The pool is truncated when the buffer ends before the end of its
  \<open>string_count\<close> field (\<open>pool + 12\<close>) or, for a positive count, before the end of its
  offset table (\<open>pool + 28 + 4 * string_count\<close>).
\<close>

inductive scan_visits :: "byte list \<Rightarrow> nat \<Rightarrow> nat \<Rightarrow> bool"
  for data :: "byte list" and start :: nat where
  visit_first: "scan_visits data start start"
| visit_next: "scan_visits data start offset \<Longrightarrow> int offset < int (length data) - 8 \<Longrightarrow>
     unpack_I (py_slice data offset (offset + 4)) = Inr chunk_type \<Longrightarrow>
     unpack_I (py_slice data (offset + 4) (offset + 8)) = Inr chunk_size \<Longrightarrow>
     chunk_type \<noteq> 0x001C0001 \<Longrightarrow>
     scan_visits data start (advance offset chunk_size)"

code_pred scan_visits .

definition pool_found :: "byte list \<Rightarrow> nat \<Rightarrow> bool" where
  "pool_found data pool =
     (scan_visits data 8 pool \<and> int pool < int (length data) - 8
      \<and> unpack_I (py_slice data pool (pool + 4)) = Inr 0x001C0001)"

definition pool_truncated :: "byte list \<Rightarrow> nat \<Rightarrow> bool" where
  "pool_truncated data pool =
     (length data < pool + 12
      \<or> (case unpack_I (py_slice data (pool + 8) (pool + 12)) of
            Inl e \<Rightarrow> False
          | Inr string_count \<Rightarrow>
              0 < string_count \<and> length data < pool + 28 + string_count * 4))"

section \<open>\<open>parse_binary_xml\<close>\<close>

text \<open>
  The function returns a dictionary: either \<open>{'error': ...}\<close> or the five fields.  The
  body of the \<open>try\<close> block returns such a dictionary or raises; the handler of line 198
  turns every exception into an error dictionary.
\<close>

datatype message = File_too_small | Exception_text exn

datatype result = Error message | Manifest metadata

definition try_body :: "unicode_db \<Rightarrow> byte list \<Rightarrow> (exn + result) option" where
  "try_body U data =
     (if length data < 8 then Some (Inr (Error File_too_small))
      else
        (case unpack_I (py_slice data 0 4) of
           Inl e \<Rightarrow> Some (Inl e)
         | Inr magic \<Rightarrow>
             (case unpack_I (py_slice data 4 8) of
                Inl e \<Rightarrow> Some (Inl e)
              | Inr file_size \<Rightarrow>
                  (case scan_chunks data 8 of
                     None \<Rightarrow> None
                   | Some (Inl e) \<Rightarrow> Some (Inl e)
                   | Some (Inr strings) \<Rightarrow>
                       (case classify U strings of
                          Inl e \<Rightarrow> Some (Inl e)
                        | Inr m \<Rightarrow> Some (Inr (Manifest m)))))))"

definition parse_binary_xml :: "unicode_db \<Rightarrow> byte list \<Rightarrow> result option" where
  "parse_binary_xml U data =
     (case try_body U data of
        None \<Rightarrow> None
      | Some (Inl e) \<Rightarrow> Some (Error (Exception_text e))
      | Some (Inr d) \<Rightarrow> Some d)"

section \<open>Example buffers\<close>

text \<open>
  A buffer that ends inside the \<open>string_count\<close> field of its string-pool chunk: an
  8-byte header, the chunk type \<open>0x001C0001\<close>, a chunk size, and two more bytes.
\<close>

definition truncated_pool :: "byte list" where
  "truncated_pool = [3, 0, 8, 0, 18, 0, 0, 0,  1, 0, 28, 0, 10, 0, 0, 0,  2, 0]"

text \<open>
  A buffer that ends inside the offset table of its string-pool chunk: the pool declares
  three strings, so the table ends at byte 48, and the buffer has 42 bytes.
\<close>

definition truncated_table :: "byte list" where
  "truncated_table =
     [3, 0, 8, 0, 42, 0, 0, 0,
      1, 0, 28, 0, 34, 0, 0, 0,  3, 0, 0, 0,  0, 0, 0, 0,  0, 0, 0, 0,  40, 0, 0, 0,
      0, 0, 0, 0,
      0, 0, 0, 0,
      2, 0]"

text \<open>
  A buffer whose string pool at cursor 8 is complete (it declares no string) and which
  holds the bytes of the pool type once more at position 20, where a pool would be
  truncated.  The loop stops at cursor 8 and never reaches position 20.
\<close>

definition stray_marker :: "byte list" where
  "stray_marker =
     [3, 0, 8, 0, 29, 0, 0, 0,
      1, 0, 28, 0, 21, 0, 0, 0,  0, 0, 0, 0,
      1, 0, 28, 0, 0, 0, 0, 0, 0]"

text \<open>
  A buffer with a chunk of another type (size 8) before the string pool.  The pool
  declares five strings: \<open>Hi\<close>; an offset far outside the buffer; a string of length 0;
  a string of length 65535; and a string of two units, a lone high surrogate and \<open>A\<close>.
\<close>

definition anomalous_pool :: "byte list" where
  "anomalous_pool =
     [3, 0, 8, 0, 82, 0, 0, 0,
      128, 1, 8, 0, 8, 0, 0, 0,
      1, 0, 28, 0, 66, 0, 0, 0,  5, 0, 0, 0,  0, 0, 0, 0,  0, 0, 0, 0,  64, 0, 0, 0,
      0, 0, 0, 0,
      0, 0, 0, 0,  255, 255, 255, 255,  6, 0, 0, 0,  8, 0, 0, 0,  10, 0, 0, 0,
      2, 0, 72, 0, 105, 0,
      0, 0,
      255, 255,
      2, 0, 0, 216, 65, 0,
      0, 0]"

text \<open>
  A well-formed pool of two strings with their terminators: \<open>12345\<close> and five times
  the superscript two (U+00B2), which \<open>str.isdigit\<close> accepts and \<open>int()\<close> rejects.
\<close>

definition superscript_pool :: "byte list" where
  "superscript_pool =
     [3, 0, 8, 0, 72, 0, 0, 0,
      1, 0, 28, 0, 64, 0, 0, 0,  2, 0, 0, 0,  0, 0, 0, 0,  0, 0, 0, 0,  36, 0, 0, 0,
      0, 0, 0, 0,
      0, 0, 0, 0,  14, 0, 0, 0,
      5, 0, 49, 0, 50, 0, 51, 0, 52, 0, 53, 0, 0, 0,
      5, 0, 178, 0, 178, 0, 178, 0, 178, 0, 178, 0, 0, 0]"

definition superscript_db :: unicode_db where
  "superscript_db = ascii_db\<lparr>ucd_isdigit := (\<lambda>c. c = 178 \<or> c = 179 \<or> c = 185)\<rparr>"

section \<open>Selection of the greatest value\<close>

text \<open>
  What the version-code loop computes when no conversion fails, written without
  exceptions: the candidates are the digit strings of 5 to 10 characters, and the first
  candidate of greatest value is kept (a later one replaces it only if strictly greater).
\<close>

definition int_value :: "unicode_db \<Rightarrow> pystr \<Rightarrow> nat" where
  "int_value U s = (case py_int U s of Inl e \<Rightarrow> 0 | Inr v \<Rightarrow> v)"

definition code_candidate :: "unicode_db \<Rightarrow> pystr \<Rightarrow> bool" where
  "code_candidate U s = (isdigit U s \<and> 5 \<le> length s \<and> length s \<le> 10)"

fun first_greatest :: "('a \<Rightarrow> nat) \<Rightarrow> 'a option \<Rightarrow> 'a list \<Rightarrow> 'a option" where
  "first_greatest f best [] = best"
| "first_greatest f best (x # xs) =
     first_greatest f (case best of None \<Rightarrow> Some x
                       | Some b \<Rightarrow> if f x > f b then Some x else Some b) xs"

section \<open>The scan returns\<close>

text \<open>
  The cursor moves forward in every iteration, so the distance to the end of the buffer
  decreases; induction on that distance shows that the loop returns from any cursor.
\<close>

lemma scan_chunks_returns: "\<exists>r. scan_chunks data offset = Some r"
proof (induction "length data - offset" arbitrary: offset rule: less_induct)
  case less
  show ?case
  proof (cases "int offset < int (length data) - 8")
    case False
    then show ?thesis by (subst scan_chunks.simps) simp
  next
    case True
    then have "length data - advance offset cs < length data - offset" for cs
      by (auto simp: advance_def)
    from less[OF this] have IH: "\<exists>r. scan_chunks data (advance offset cs) = Some r" for cs .
    show ?thesis
      by (subst scan_chunks.simps) (use IH in \<open>auto split: sum.splits\<close>)
  qed
qed

lemma try_body_returns: "\<exists>r. try_body U data = Some r"
proof -
  obtain r where "scan_chunks data 8 = Some r" using scan_chunks_returns by blast
  then show ?thesis by (auto simp: try_body_def split: sum.splits)
qed

text \<open>
  C8.  For every buffer shorter than 8 bytes the body of \<open>parse_binary_xml\<close> returns the
  error dictionary \<open>'File too small'\<close> at once: the result is this dictionary and not an
  exception of a read, whatever the bytes and whatever the character tables, so neither
  the chunk loop nor the classifier has contributed to it.
\<close>

theorem too_small:
  "length data < 8 \<Longrightarrow>
     try_body U data = Some (Inr (Error File_too_small))
     \<and> parse_binary_xml U data = Some (Error File_too_small)"
  by (simp add: parse_binary_xml_def try_body_def)

theorem too_small_witness:
  "length [1, 2, 3 :: byte] < 8
   \<and> parse_binary_xml ascii_db [1, 2, 3] = Some (Error File_too_small)"
  using too_small [of "[1, 2, 3]" ascii_db] by simp

text \<open>
  C9.  For every buffer and every cursor the chunk loop returns, and so does the whole
  parse (scan, then classification).  The cursor strictly increases in each iteration: it
  advances by \<open>chunk_size\<close> when that is positive and by one byte otherwise; the loop
  stops with the empty pool once the cursor is within 8 bytes of the end.
\<close>

theorem scan_terminates:
  "(\<exists>r. scan_chunks data offset = Some r)
   \<and> (\<exists>d. parse_binary_xml U data = Some d)
   \<and> offset < advance offset chunk_size
   \<and> advance offset chunk_size = (if chunk_size > 0 then offset + chunk_size else offset + 1)
   \<and> (\<not> int offset < int (length data) - 8 \<longrightarrow> scan_chunks data offset = Some (Inr []))"
proof -
  have 1: "\<exists>r. scan_chunks data offset = Some r" by (rule scan_chunks_returns)
  obtain r where r: "try_body U data = Some r" using try_body_returns by blast
  have 2: "\<exists>d. parse_binary_xml U data = Some d"
    by (cases r) (simp_all add: parse_binary_xml_def r)
  have 3: "offset < advance offset chunk_size" by (simp add: advance_def)
  have 4: "advance offset chunk_size = (if chunk_size > 0 then offset + chunk_size else offset + 1)"
    by (simp add: advance_def)
  have 5: "\<not> int offset < int (length data) - 8 \<longrightarrow> scan_chunks data offset = Some (Inr [])"
    by (subst scan_chunks.simps) simp
  from 1 2 3 4 5 show ?thesis by blast
qed

theorem scan_terminates_witness:
  "scan_chunks [0, 0, 0, 0, 0, 0, 0, 0, 0, 0] 8 = Some (Inr []) \<and> 8 < advance 8 0
   \<and> advance 8 0 = 9"
  using scan_terminates [of "[0, 0, 0, 0, 0, 0, 0, 0, 0, 0]" 8 ascii_db 0] by simp

text \<open>
  C10.  For every buffer \<open>parse_binary_xml\<close> returns a dictionary: either the dictionary
  that the body of the \<open>try\<close> block returned, or, when the body raised an exception, the
  error dictionary made from that exception.  No run fails to return and no exception
  leaves the function.
\<close>

theorem parse_total:
  "(\<exists>d. try_body U data = Some (Inr d) \<and> parse_binary_xml U data = Some d)
   \<or> (\<exists>e. try_body U data = Some (Inl e)
          \<and> parse_binary_xml U data = Some (Error (Exception_text e)))"
proof -
  obtain r where r: "try_body U data = Some r" using try_body_returns by blast
  show ?thesis by (cases r) (simp_all add: parse_binary_xml_def r)
qed

section \<open>Permissions\<close>

lemma collect_permissions_snoc:
  "collect_permissions (strings @ [s]) = permissions_step (collect_permissions strings) s"
  by (simp add: collect_permissions_def)

lemma collect_permissions_first_seen:
  "collect_permissions strings = rev (remdups (rev (filter is_permission strings)))"
proof (induction strings rule: rev_induct)
  case Nil
  show ?case by (simp add: collect_permissions_def)
next
  case (snoc s strings)
  have "set (collect_permissions strings) = set (filter is_permission strings)"
    by (simp add: snoc.IH)
  then show ?case
    by (auto simp: collect_permissions_snoc permissions_step_def snoc.IH)
qed

lemma classify_permissions:
  "classify U strings = Inr m \<Longrightarrow> permissions m = collect_permissions strings"
  by (auto simp: classify_def Let_def split: sum.splits)

text \<open>
  C2.  For every string pool the collected permissions are the strings that pass the
  permission test, each kept at its first occurrence and in pool order (\<open>remdups\<close> keeps
  last occurrences, hence the two reversals); no string occurs twice; a string is
  collected if and only if it is in the pool and starts with \<open>android.permission.\<close>, or
  contains \<open>.permission.\<close> and ends with none of \<open>Activity\<close>, \<open>Service\<close>,
  \<open>Receiver\<close>, \<open>Provider\<close>; and this list is the \<open>permissions\<close> field of the record.
\<close>

theorem permissions_collected:
  "collect_permissions strings = rev (remdups (rev (filter is_permission strings)))
   \<and> distinct (collect_permissions strings)
   \<and> (s \<in> set (collect_permissions strings) \<longleftrightarrow>
        s \<in> set strings \<and>
        (startswith s (lit ''android.permission.'')
         \<or> contains (lit ''.permission.'') s \<and> \<not> endswith s (lit ''Activity'')
            \<and> \<not> endswith s (lit ''Service'') \<and> \<not> endswith s (lit ''Receiver'')
            \<and> \<not> endswith s (lit ''Provider'')))
   \<and> (\<forall>m. classify U strings = Inr m \<longrightarrow> permissions m = collect_permissions strings)"
proof -
  have 1: "collect_permissions strings = rev (remdups (rev (filter is_permission strings)))"
    by (rule collect_permissions_first_seen)
  have 2: "distinct (collect_permissions strings)" by (simp add: 1)
  have 3: "s \<in> set (collect_permissions strings) \<longleftrightarrow>
        s \<in> set strings \<and>
        (startswith s (lit ''android.permission.'')
         \<or> contains (lit ''.permission.'') s \<and> \<not> endswith s (lit ''Activity'')
            \<and> \<not> endswith s (lit ''Service'') \<and> \<not> endswith s (lit ''Receiver'')
            \<and> \<not> endswith s (lit ''Provider''))"
    unfolding 1 by (simp add: is_permission_def)
  have 4: "\<forall>m. classify U strings = Inr m \<longrightarrow> permissions m = collect_permissions strings"
    using classify_permissions by blast
  from 1 2 3 4 show ?thesis by blast
qed

theorem permissions_collected_witness:
  "collect_permissions (map lit [''android.permission.INTERNET'', ''x.permission.MyService'',
      ''android.permission.CAMERA'', ''android.permission.INTERNET'', ''x.permission.READ''])
   = map lit [''android.permission.INTERNET'', ''android.permission.CAMERA'', ''x.permission.READ'']"
proof -
  have "rev (remdups (rev (filter is_permission
          (map lit [''android.permission.INTERNET'', ''x.permission.MyService'',
             ''android.permission.CAMERA'', ''android.permission.INTERNET'', ''x.permission.READ'']))))
        = map lit [''android.permission.INTERNET'', ''android.permission.CAMERA'', ''x.permission.READ'']"
    by code_simp
  with permissions_collected [of "map lit [''android.permission.INTERNET'', ''x.permission.MyService'',
      ''android.permission.CAMERA'', ''android.permission.INTERNET'', ''x.permission.READ'']"]
  show ?thesis by simp
qed

section \<open>Package name and version name\<close>

lemma truthy_simps [simp]: "truthy None = False" "truthy (Some s) = (s \<noteq> [])"
  by (simp_all add: truthy_def)

lemma package_loop:
  "fst st = None \<or> truthy (fst st) \<Longrightarrow>
   fst (foldl (package_version_step U) st strings) =
     (if truthy (fst st) then fst st
      else find (\<lambda>s. contains (lit ''.'') s \<and> 5 < length s \<and> length s < 200 \<and> is_package U s)
             strings)"
proof (induction strings arbitrary: st)
  case Nil
  then show ?case by auto
next
  case (Cons s strings)
  let ?st = "package_version_step U st s"
  have inv: "fst ?st = None \<or> truthy (fst ?st)"
    using Cons.prems by (auto simp: package_version_step_def Let_def)
  show ?case
    using Cons.prems Cons.IH [OF inv]
    by (auto simp: package_version_step_def Let_def)
qed

lemma version_loop:
  "snd st = None \<or> truthy (snd st) \<Longrightarrow>
   snd (foldl (package_version_step U) st strings) =
     (if truthy (snd st) then snd st
      else find (\<lambda>s. length s < 50 \<and> contains (lit ''.'') s \<and> isdigit_c U (hd s)
                      \<and> isdigit U (version_digits s)) strings)"
proof (induction strings arbitrary: st)
  case Nil
  then show ?case by auto
next
  case (Cons s strings)
  let ?st = "package_version_step U st s"
  have ne: "contains (lit ''.'') s \<Longrightarrow> s \<noteq> []"
    by (auto simp: contains_def lit_def)
  have inv: "snd ?st = None \<or> truthy (snd ?st)"
    using Cons.prems ne by (auto simp: package_version_step_def Let_def)
  show ?case
    using Cons.prems Cons.IH [OF inv] ne
    by (auto simp: package_version_step_def Let_def)
qed

lemma package_find:
  "fst (package_version U strings) =
     find (\<lambda>s. contains (lit ''.'') s \<and> 5 < length s \<and> length s < 200 \<and> is_package U s) strings"
  using package_loop [of "(None, None)" U strings] by (simp add: package_version_def)

lemma version_find:
  "snd (package_version U strings) =
     find (\<lambda>s. length s < 50 \<and> contains (lit ''.'') s \<and> isdigit_c U (hd s)
                \<and> isdigit U (version_digits s)) strings"
  using version_loop [of "(None, None)" U strings] by (simp add: package_version_def)

lemma classify_package:
  "classify U strings = Inr m \<Longrightarrow>
     package m = fst (package_version U strings) \<and> versionName m = snd (package_version U strings)"
  by (auto simp: classify_def Let_def split: sum.splits)


lemma find_app:
  "find P (xs @ ys) = (case find P xs of None \<Rightarrow> find P ys | Some x \<Rightarrow> Some x)"
  by (induction xs) auto

text \<open>
  C3.  The package name is the first string of the pool, in pool order, that contains a
  dot, has a length strictly between 5 and 200, has at least two dots and at least one
  alphabetic character, consists of alphanumeric characters, dots and underscores only,
  does not start with a digit and does not start with \<open>android.permission.\<close>; it is the
  \<open>package\<close> field of the record.  The choice is first-match:
  \<open>com.example.myapp.MainActivity\<close> qualifies on its own, yet whenever
  \<open>com.example.myapp\<close> comes first in a pool (after strings that do not qualify), it is
  selected whatever follows.
\<close>

theorem package_first_match:
  "fst (package_version U strings) =
     find (\<lambda>s. contains (lit ''.'') s \<and> 5 < length s \<and> length s < 200
                \<and> 2 \<le> count_list s 46
                \<and> list_ex (isalpha_c U) s
                \<and> list_all (\<lambda>c. isalnum_c U c \<or> c = 46 \<or> c = 95) s
                \<and> \<not> isdigit_c U (hd s)
                \<and> \<not> startswith s (lit ''android.permission.'')) strings
   \<and> (\<forall>m. classify U strings = Inr m \<longrightarrow> package m = fst (package_version U strings))
   \<and> fst (package_version U [lit ''com.example.myapp.MainActivity''])
       = Some (lit ''com.example.myapp.MainActivity'')
   \<and> ((\<forall>s \<in> set pre. fst (package_version U [s]) = None) \<longrightarrow>
        fst (package_version U (pre @ lit ''com.example.myapp'' # rest))
          = Some (lit ''com.example.myapp''))"
proof -
  have 1: "fst (package_version U strings) =
     find (\<lambda>s. contains (lit ''.'') s \<and> 5 < length s \<and> length s < 200
                \<and> 2 \<le> count_list s 46
                \<and> list_ex (isalpha_c U) s
                \<and> list_all (\<lambda>c. isalnum_c U c \<or> c = 46 \<or> c = 95) s
                \<and> \<not> isdigit_c U (hd s)
                \<and> \<not> startswith s (lit ''android.permission.'')) strings"
    by (simp add: package_find is_package_def)
  have 2: "\<forall>m. classify U strings = Inr m \<longrightarrow> package m = fst (package_version U strings)"
    using classify_package by blast
  have a: "contains (lit ''.'') (lit ''com.example.myapp'') \<and> 5 < length (lit ''com.example.myapp'')
           \<and> length (lit ''com.example.myapp'') < 200 \<and> is_package U (lit ''com.example.myapp'')"
    by code_simp
  have b: "contains (lit ''.'') (lit ''com.example.myapp.MainActivity'')
           \<and> 5 < length (lit ''com.example.myapp.MainActivity'')
           \<and> length (lit ''com.example.myapp.MainActivity'') < 200
           \<and> is_package U (lit ''com.example.myapp.MainActivity'')"
    by code_simp
  have 3: "fst (package_version U [lit ''com.example.myapp.MainActivity''])
       = Some (lit ''com.example.myapp.MainActivity'')"
    using b by (simp add: package_find)
  have 4: "(\<forall>s \<in> set pre. fst (package_version U [s]) = None) \<longrightarrow>
        fst (package_version U (pre @ lit ''com.example.myapp'' # rest))
          = Some (lit ''com.example.myapp'')"
  proof
    assume "\<forall>s \<in> set pre. fst (package_version U [s]) = None"
    then have "find (\<lambda>s. contains (lit ''.'') s \<and> 5 < length s \<and> length s < 200 \<and> is_package U s)
                 pre = None"
      by (auto simp: package_find find_None_iff split: if_splits)
    then show "fst (package_version U (pre @ lit ''com.example.myapp'' # rest))
          = Some (lit ''com.example.myapp'')"
      using a by (simp add: package_find find_app)
  qed
  from 1 2 3 4 show ?thesis by blast
qed


theorem package_first_match_witness:
  "fst (package_version ascii_db
          [lit ''manifest'', lit ''com.example.myapp'', lit ''com.example.myapp.MainActivity''])
     = Some (lit ''com.example.myapp'')
   \<and> (\<exists>m. classify ascii_db
          [lit ''manifest'', lit ''com.example.myapp'', lit ''com.example.myapp.MainActivity'']
            = Inr m
          \<and> package m = Some (lit ''com.example.myapp''))"
proof -
  let ?pool = "[lit ''manifest'', lit ''com.example.myapp'', lit ''com.example.myapp.MainActivity'']"
  note t = package_first_match [of ascii_db ?pool "[lit ''manifest'']"
      "[lit ''com.example.myapp.MainActivity'']"]
  have pre: "\<forall>s \<in> set [lit ''manifest'']. fst (package_version ascii_db [s]) = None"
    by code_simp
  have p: "fst (package_version ascii_db ?pool) = Some (lit ''com.example.myapp'')"
    using mp [OF t [THEN conjunct2, THEN conjunct2, THEN conjunct2] pre]
    by (simp only: append_Cons append_Nil)
  have "\<not> isl (classify ascii_db ?pool)"
    by code_simp
  then obtain m where m: "classify ascii_db ?pool = Inr m"
    by (cases "classify ascii_db ?pool") auto
  have "package m = fst (package_version ascii_db ?pool)"
    using t [THEN conjunct2, THEN conjunct1] m by blast
  with p m show ?thesis by (intro conjI exI [of _ m]) simp_all
qed

text \<open>
  C4 (amended).  The version name is the first string of the pool with length below 50
  that contains a dot, whose first character is a digit, and whose transformed form
  (every \<open>.\<close>, \<open>-\<close>, \<open>_\<close> removed, cut to the first 5 characters, then the substrings
  \<open>b\<close>, \<open>a\<close>, \<open>rc\<close> removed) is a non-empty string of digits; it is the
  \<open>versionName\<close> field of the record.  The test admits \<open>1.2.3\<close> and \<open>1.0rc2\<close>.  It
  does not admit \<open>2.0-beta1\<close>, whose transformed form is \<open>20et\<close>.
\<close>

theorem version_name_first_match:
  "snd (package_version U strings) =
     find (\<lambda>s. length s < 50 \<and> contains (lit ''.'') s \<and> isdigit_c U (hd s)
                \<and> isdigit U
                    (remove_all (lit ''rc'') (remove_all (lit ''a'') (remove_all (lit ''b'')
                      (take 5 (remove_all (lit ''_'') (remove_all (lit ''-'')
                        (remove_all (lit ''.'') s)))))))) strings
   \<and> (\<forall>m. classify U strings = Inr m \<longrightarrow> versionName m = snd (package_version U strings))
   \<and> snd (package_version U [lit ''1.2.3'']) = Some (lit ''1.2.3'')
   \<and> snd (package_version U [lit ''1.0rc2'']) = Some (lit ''1.0rc2'')
   \<and> version_digits (lit ''2.0-beta1'') = lit ''20et''
   \<and> snd (package_version U [lit ''2.0-beta1'']) = None"
proof -
  have 1: "snd (package_version U strings) =
     find (\<lambda>s. length s < 50 \<and> contains (lit ''.'') s \<and> isdigit_c U (hd s)
                \<and> isdigit U
                    (remove_all (lit ''rc'') (remove_all (lit ''a'') (remove_all (lit ''b'')
                      (take 5 (remove_all (lit ''_'') (remove_all (lit ''-'')
                        (remove_all (lit ''.'') s)))))))) strings"
    by (simp add: version_find version_digits_def)
  have 2: "\<forall>m. classify U strings = Inr m \<longrightarrow> versionName m = snd (package_version U strings)"
    using classify_package by blast
  have 3: "snd (package_version U [lit ''1.2.3'']) = Some (lit ''1.2.3'')"
    by code_simp
  have 4: "snd (package_version U [lit ''1.0rc2'']) = Some (lit ''1.0rc2'')"
    by code_simp
  have 5: "version_digits (lit ''2.0-beta1'') = lit ''20et''"
    by code_simp
  have 6: "snd (package_version U [lit ''2.0-beta1'']) = None"
    by code_simp
  from 1 2 3 4 5 6 show ?thesis by blast
qed

theorem version_name_first_match_witness:
  "snd (package_version ascii_db [lit ''versionName'', lit ''2.0-beta1'', lit ''1.0rc2'', lit ''1.2.3''])
     = Some (lit ''1.0rc2'')
   \<and> (\<exists>m. classify ascii_db [lit ''versionName'', lit ''2.0-beta1'', lit ''1.0rc2'', lit ''1.2.3'']
            = Inr m
          \<and> versionName m = Some (lit ''1.0rc2''))"
proof -
  let ?pool = "[lit ''versionName'', lit ''2.0-beta1'', lit ''1.0rc2'', lit ''1.2.3'']"
  note t = version_name_first_match [of ascii_db ?pool]
  have f: "find (\<lambda>s. length s < 50 \<and> contains (lit ''.'') s \<and> isdigit_c ascii_db (hd s)
                \<and> isdigit ascii_db
                    (remove_all (lit ''rc'') (remove_all (lit ''a'') (remove_all (lit ''b'')
                      (take 5 (remove_all (lit ''_'') (remove_all (lit ''-'')
                        (remove_all (lit ''.'') s)))))))) ?pool
           = Some (lit ''1.0rc2'')"
    by code_simp
  have p: "snd (package_version ascii_db ?pool) = Some (lit ''1.0rc2'')"
    using t [THEN conjunct1] f by (rule trans)
  have "\<not> isl (classify ascii_db ?pool)"
    by code_simp
  then obtain m where m: "classify ascii_db ?pool = Inr m"
    by (cases "classify ascii_db ?pool") auto
  have "versionName m = snd (package_version ascii_db ?pool)"
    using t [THEN conjunct2, THEN conjunct1] m by blast
  with p m show ?thesis by (intro conjI exI [of _ m]) simp_all
qed

text \<open>
  The claim as written also lists \<open>2.0-beta1\<close> among the admitted forms: a pool that
  holds only this string gets no version name.
\<close>

theorem version_name_beta_counterexample:
  "classify ascii_db [lit ''2.0-beta1'']
     = Inr \<lparr>package = None, versionName = None, versionCode = None, appLabel = None,
            permissions = []\<rparr>"
  by code_simp

section \<open>Application label\<close>





lemma find_enumerate_absent:
  "x \<notin> set xs \<Longrightarrow> find (\<lambda>(i, s). s = x) (enumerate n xs) = None"
  by (induction xs arbitrary: n) auto

lemma app_index_first:
  assumes "lit ''application'' \<notin> set pre"
  shows "app_index (pre @ lit ''application'' # rest) = int (length pre)"
  using find_enumerate_absent [OF assms, of 0]
  by (simp add: app_index_def enumerate_append_eq find_app)

lemma app_index_absent:
  "lit ''application'' \<notin> set strings \<Longrightarrow> app_index strings = - 1"
  using find_enumerate_absent [of "lit ''application''" strings 0]
  by (simp add: app_index_def)

lemma window_after:
  "map (\<lambda>offset. (pre @ a # rest) ! (length pre + offset))
       [1 ..< min 21 (length (pre @ a # rest) - length pre)] = take 20 rest"
proof -
  let ?k = "min 20 (length rest)"
  have len: "min 21 (length (pre @ a # rest) - length pre) = Suc ?k" by simp
  have "map (\<lambda>offset. (pre @ a # rest) ! (length pre + offset)) [Suc 0 ..< Suc ?k]
          = map (\<lambda>i. rest ! i) [0 ..< ?k]"
    unfolding map_Suc_upt [symmetric] by (simp add: nth_append)
  also have "\<dots> = take ?k rest"
    by (rule nth_equalityI) auto
  also have "\<dots> = take 20 rest" by (simp add: min_def)
  finally show ?thesis unfolding len One_nat_def .
qed

lemma proximity_pass_window:
  assumes "lit ''application'' \<notin> set pre"
  shows "proximity_pass U (pre @ lit ''application'' # rest) =
           find (\<lambda>s. near_candidate U s \<and> isupper_c U (hd s)) (take 20 rest)"
  using window_after [of pre "lit ''application''" rest]
  by (simp add: proximity_pass_def app_index_first [OF assms] Let_def del: length_append)

lemma proximity_pass_kept:
  assumes "proximity_pass U strings = Some s"
  shows "label_passes U strings = Some s"
    and "classify U strings = Inr m \<Longrightarrow> appLabel m = Some s"
proof -
  have "near_candidate U s"
    using assms by (auto simp: proximity_pass_def Let_def find_Some_iff split: if_splits)
  then have ne: "s \<noteq> []" by (auto simp: near_candidate_def)
  then show l: "label_passes U strings = Some s"
    using assms by (simp add: label_passes_def Let_def)
  show "appLabel m = Some s" if "classify U strings = Inr m"
    using that l ne by (auto simp: classify_def Let_def label_from_package_def split: sum.splits)
qed


text \<open>
  C6.  Let the first \<open>application\<close> of the pool be followed by the strings \<open>rest\<close>.  The
  proximity pass looks at the first 20 strings of \<open>rest\<close> and returns the first one with
  length from 2 to 50, no \<open>/\<close>, not starting with \<open>android\<close>, \<open>com.\<close> or \<open>@\<close>, not
  ending with \<open>.xml\<close>, without a digit, whose upper-cased form is not in the exclusion
  vocabulary, and which starts with an upper-case letter.  A string found by this pass is
  the label after the three passes and the \<open>appLabel\<close> of the record.  In particular, when
  \<open>MyCoolApp\<close> stands within these 20 strings after strings that do not qualify, the
  pass returns \<open>MyCoolApp\<close>.
\<close>

theorem proximity_label:
  assumes "lit ''application'' \<notin> set pre"
  shows
  "proximity_pass U (pre @ lit ''application'' # rest) =
     find (\<lambda>s. 2 \<le> length s \<and> length s \<le> 50
                \<and> \<not> contains (lit ''/'') s
                \<and> \<not> startswith s (lit ''android'')
                \<and> \<not> startswith s (lit ''com.'')
                \<and> \<not> startswith s (lit ''@'')
                \<and> \<not> endswith s (lit ''.xml'')
                \<and> \<not> list_ex (isdigit_c U) s
                \<and> \<not> excluded U s
                \<and> isupper_c U (hd s)) (take 20 rest)
   \<and> (\<forall>s. proximity_pass U (pre @ lit ''application'' # rest) = Some s \<longrightarrow>
          label_passes U (pre @ lit ''application'' # rest) = Some s
          \<and> (\<forall>m. classify U (pre @ lit ''application'' # rest) = Inr m \<longrightarrow> appLabel m = Some s))
   \<and> (\<forall>mid post.
          rest = mid @ lit ''MyCoolApp'' # post \<and> length mid < 20
          \<and> (\<forall>x \<in> set mid. \<not> (near_candidate U x \<and> isupper_c U (hd x)))
          \<longrightarrow> proximity_pass U (pre @ lit ''application'' # rest) = Some (lit ''MyCoolApp''))"
proof -
  let ?pool = "pre @ lit ''application'' # rest"
  note w = proximity_pass_window [OF assms, of U rest]
  have 1: "proximity_pass U ?pool =
     find (\<lambda>s. 2 \<le> length s \<and> length s \<le> 50
                \<and> \<not> contains (lit ''/'') s
                \<and> \<not> startswith s (lit ''android'')
                \<and> \<not> startswith s (lit ''com.'')
                \<and> \<not> startswith s (lit ''@'')
                \<and> \<not> endswith s (lit ''.xml'')
                \<and> \<not> list_ex (isdigit_c U) s
                \<and> \<not> excluded U s
                \<and> isupper_c U (hd s)) (take 20 rest)"
    unfolding w near_candidate_def by simp
  have 2: "\<forall>s. proximity_pass U ?pool = Some s \<longrightarrow>
          label_passes U ?pool = Some s
          \<and> (\<forall>m. classify U ?pool = Inr m \<longrightarrow> appLabel m = Some s)"
    using proximity_pass_kept by blast
  have my: "near_candidate U (lit ''MyCoolApp'') \<and> isupper_c U (hd (lit ''MyCoolApp''))"
    by code_simp
  have 3: "\<forall>mid post.
          rest = mid @ lit ''MyCoolApp'' # post \<and> length mid < 20
          \<and> (\<forall>x \<in> set mid. \<not> (near_candidate U x \<and> isupper_c U (hd x)))
          \<longrightarrow> proximity_pass U ?pool = Some (lit ''MyCoolApp'')"
  proof (intro allI impI, elim conjE)
    fix mid post
    assume r: "rest = mid @ lit ''MyCoolApp'' # post" and l: "length mid < 20"
      and n: "\<forall>x \<in> set mid. \<not> (near_candidate U x \<and> isupper_c U (hd x))"
    from n have "find (\<lambda>s. near_candidate U s \<and> isupper_c U (hd s)) mid = None"
      by (simp add: find_None_iff)
    moreover from l have "take 20 rest = mid @ lit ''MyCoolApp'' # take (19 - length mid) post"
      unfolding r by (simp add: take_Cons')
    ultimately show "proximity_pass U ?pool = Some (lit ''MyCoolApp'')"
      unfolding w using my by (simp add: find_app)
  qed
  from 1 2 3 show ?thesis by blast
qed


theorem proximity_label_witness:
  "proximity_pass ascii_db
      [lit ''manifest'', lit ''application'', lit ''label'', lit ''icon'', lit ''MyCoolApp'',
       lit ''activity'']
     = Some (lit ''MyCoolApp'')
   \<and> (\<exists>m. classify ascii_db
          [lit ''manifest'', lit ''application'', lit ''label'', lit ''icon'', lit ''MyCoolApp'',
           lit ''activity''] = Inr m
          \<and> appLabel m = Some (lit ''MyCoolApp''))"
proof -
  let ?pool = "[lit ''manifest'', lit ''application'', lit ''label'', lit ''icon'',
                lit ''MyCoolApp'', lit ''activity'']"
  have pre: "lit ''application'' \<notin> set [lit ''manifest'']"
    by code_simp
  note t = proximity_label [OF pre, of ascii_db
      "[lit ''label'', lit ''icon'', lit ''MyCoolApp'', lit ''activity'']"]
  have mid: "\<forall>x \<in> set [lit ''label'', lit ''icon''].
               \<not> (near_candidate ascii_db x \<and> isupper_c ascii_db (hd x))"
    by code_simp
  have "[lit ''label'', lit ''icon'', lit ''MyCoolApp'', lit ''activity'']
          = [lit ''label'', lit ''icon''] @ lit ''MyCoolApp'' # [lit ''activity'']
        \<and> length [lit ''label'', lit ''icon''] < 20
        \<and> (\<forall>x \<in> set [lit ''label'', lit ''icon''].
               \<not> (near_candidate ascii_db x \<and> isupper_c ascii_db (hd x)))"
    using mid by simp
  with t [THEN conjunct2, THEN conjunct2]
  have "proximity_pass ascii_db ([lit ''manifest''] @ lit ''application''
          # [lit ''label'', lit ''icon'', lit ''MyCoolApp'', lit ''activity''])
        = Some (lit ''MyCoolApp'')"
    by blast
  then have p: "proximity_pass ascii_db ?pool = Some (lit ''MyCoolApp'')"
    by (simp only: append_Cons append_Nil)
  have "\<not> isl (classify ascii_db ?pool)"
    by code_simp
  then obtain m where m: "classify ascii_db ?pool = Inr m"
    by (cases "classify ascii_db ?pool") auto
  have "\<forall>s. proximity_pass ascii_db ?pool = Some s \<longrightarrow>
          label_passes ascii_db ?pool = Some s
          \<and> (\<forall>m. classify ascii_db ?pool = Inr m \<longrightarrow> appLabel m = Some s)"
    using t [THEN conjunct2, THEN conjunct1] by (simp only: append_Cons append_Nil)
  with p m have "appLabel m = Some (lit ''MyCoolApp'')" by blast
  with p m show ?thesis by (intro conjI exI [of _ m]) simp_all
qed





section \<open>Failures of the scanner\<close>

lemma unpack_I_fails: "unpack_I bs = Inl e \<longleftrightarrow> e = Struct_error \<and> length bs \<noteq> 4"
  by (auto simp: unpack_I_def split: list.splits)

lemma unpack_H_fails: "unpack_H bs = Inl e \<longleftrightarrow> e = Struct_error \<and> length bs \<noteq> 2"
  by (auto simp: unpack_H_def split: list.splits)

lemma length_py_slice: "length (py_slice xs a b) = min (b - a) (length xs - a)"
  by (simp add: py_slice_def)

lemma read_I_fails:
  "unpack_I (py_slice data a (a + 4)) = Inl e \<longleftrightarrow> e = Struct_error \<and> length data < a + 4"
  by (auto simp: unpack_I_fails length_py_slice)

lemma read_offset_fails:
  "read_offset data offset offsets i = Inl e \<longleftrightarrow>
     e = Struct_error \<and> length data < offset + 32 + i * 4"
proof -
  have "py_slice data (offset + 28 + i * 4) (offset + 32 + i * 4)
          = py_slice data (offset + 28 + i * 4) (offset + 28 + i * 4 + 4)"
    by (simp add: add.commute add.left_commute)
  then show ?thesis
    using read_I_fails [of data "offset + 28 + i * 4" e]
    by (auto simp: read_offset_def split: sum.splits)
qed

lemma read_string_returns: "\<exists>strings'. read_string data data_start strings str_offset = Inr strings'"
proof (cases "int (data_start + str_offset) < int (length data) - 2")
  case False
  then show ?thesis by (simp add: read_string_def Let_def)
next
  case True
  let ?p = "data_start + str_offset"
  obtain v where "unpack_H (py_slice data ?p (?p + 2)) = Inr v"
    using True unpack_H_fails [of "py_slice data ?p (?p + 2)"]
    by (cases "unpack_H (py_slice data ?p (?p + 2))") (auto simp: length_py_slice)
  with True show ?thesis by (simp add: read_string_def Let_def)
qed

lemma for_each_returns:
  "(\<And>st x. x \<in> set xs \<Longrightarrow> \<exists>st'. body st x = Inr st') \<Longrightarrow> \<exists>r. for_each body st xs = Inr r"
proof (induction xs arbitrary: st)
  case Nil
  show ?case by simp
next
  case (Cons x xs)
  obtain st' where "body st x = Inr st'" using Cons.prems [of x st] by auto
  moreover have "\<exists>r. for_each body st' xs = Inr r"
    using Cons.IH [of st'] Cons.prems by simp
  ultimately show ?case by simp
qed

lemma for_each_fails:
  "for_each body st xs = Inl e \<Longrightarrow> \<exists>st' x. x \<in> set xs \<and> body st' x = Inl e"
proof (induction xs arbitrary: st)
  case Nil
  then show ?case by simp
next
  case (Cons a xs)
  show ?case
  proof (cases "body st a")
    case (Inl e')
    with Cons.prems have "body st a = Inl e" by simp
    then show ?thesis by auto
  next
    case (Inr st')
    with Cons.prems have "for_each body st' xs = Inl e" by simp
    from Cons.IH [OF this] show ?thesis by auto
  qed
qed

lemma for_each_fails_at:
  "x \<in> set xs \<Longrightarrow> (\<And>st. body st x = Inl e) \<Longrightarrow>
   (\<And>st y e'. body st y = Inl e' \<Longrightarrow> e' = e) \<Longrightarrow> for_each body st xs = Inl e"
  by (induction xs arbitrary: st) (auto split: sum.splits)

lemma read_offsets_fails:
  "for_each (read_offset data offset) [] [0 ..< n] = Inl e \<longleftrightarrow>
     e = Struct_error \<and> 0 < n \<and> length data < offset + 28 + n * 4"
proof
  assume "for_each (read_offset data offset) [] [0 ..< n] = Inl e"
  then obtain st i where "i < n" "read_offset data offset st i = Inl e"
    using for_each_fails [of "read_offset data offset" "[]" "[0 ..< n]" e] by auto
  then show "e = Struct_error \<and> 0 < n \<and> length data < offset + 28 + n * 4"
    by (auto simp: read_offset_fails)
next
  assume a: "e = Struct_error \<and> 0 < n \<and> length data < offset + 28 + n * 4"
  then have "n - 1 \<in> set [0 ..< n]" by auto
  moreover have "read_offset data offset st (n - 1) = Inl e" for st
    using a by (auto simp: read_offset_fails)
  moreover have "e' = e" if "read_offset data offset st y = Inl e'" for st y e'
    using that a by (simp add: read_offset_fails)
  ultimately show "for_each (read_offset data offset) [] [0 ..< n] = Inl e"
    by (rule for_each_fails_at)
qed

lemma read_string_pool_fails:
  "read_string_pool data offset = Inl e \<longleftrightarrow>
     e = Struct_error
     \<and> (length data < offset + 12
        \<or> (\<exists>n. unpack_I (py_slice data (offset + 8) (offset + 12)) = Inr n
               \<and> 0 < n \<and> length data < offset + 28 + n * 4))"
proof (cases "unpack_I (py_slice data (offset + 8) (offset + 12))")
  case (Inl e')
  have s: "py_slice data (offset + 8) (offset + 12) = py_slice data (offset + 8) (offset + 8 + 4)"
    by (simp add: add.commute add.left_commute)
  from Inl have "e' = Struct_error \<and> length data < offset + 12"
    unfolding s read_I_fails by simp
  with Inl show ?thesis by (auto simp: read_string_pool_def)
next
  case (Inr n)
  have s: "py_slice data (offset + 8) (offset + 12) = py_slice data (offset + 8) (offset + 8 + 4)"
    by (simp add: add.commute add.left_commute)
  have ok: "\<not> length data < offset + 12"
    using Inr read_I_fails [of data "offset + 8" Struct_error] unfolding s by auto
  show ?thesis
  proof (cases "for_each (read_offset data offset) [] [0 ..< n]")
    case (Inl e')
    then have "e' = Struct_error \<and> 0 < n \<and> length data < offset + 28 + n * 4"
      by (simp add: read_offsets_fails)
    with Inl Inr show ?thesis by (auto simp: read_string_pool_def)
  next
    case r: (Inr offsets)
    obtain strings where
      "for_each (read_string data (offset + 28 + n * 4)) [] offsets = Inr strings"
      using for_each_returns [of offsets "read_string data (offset + 28 + n * 4)" "[]"]
        read_string_returns by blast
    moreover have "\<not> (0 < n \<and> length data < offset + 28 + n * 4)"
      using r read_offsets_fails [of data offset n Struct_error] by auto
    ultimately show ?thesis using Inr r ok by (auto simp: read_string_pool_def)
  qed
qed

lemmas scan_eval = scan_chunks.simps advance_def unpack_I_def unpack_H_def py_slice_def
  read_string_pool_def read_offset_def read_string_def decode_utf16le_def Let_def


lemma upt_0_5: "[0 ..< 5] = [0, 1, 2, 3, 4]" by code_simp
lemma upt_0_2: "[0 ..< 2] = [0, 1]" by code_simp


lemma try_body_long:
  assumes "8 \<le> length data"
  shows "try_body U data =
     (case scan_chunks data 8 of
        None \<Rightarrow> None
      | Some (Inl e) \<Rightarrow> Some (Inl e)
      | Some (Inr strings) \<Rightarrow>
          (case classify U strings of
             Inl e \<Rightarrow> Some (Inl e)
           | Inr m \<Rightarrow> Some (Inr (Manifest m))))"
proof -
  obtain magic where m: "unpack_I (py_slice data 0 4) = Inr magic"
    using assms read_I_fails [of data 0]
    by (cases "unpack_I (py_slice data 0 4)") auto
  obtain file_size where f: "unpack_I (py_slice data 4 8) = Inr file_size"
    using assms read_I_fails [of data 4]
    by (cases "unpack_I (py_slice data 4 8)") auto
  show ?thesis using assms m f by (simp add: try_body_def)
qed

lemma parse_long:
  assumes "8 \<le> length data"
  shows "scan_chunks data 8 = Some (Inl e) \<Longrightarrow>
           parse_binary_xml U data = Some (Error (Exception_text e))"
    and "scan_chunks data 8 = Some (Inr strings) \<Longrightarrow>
           parse_binary_xml U data =
             Some (case classify U strings of
                     Inl e \<Rightarrow> Error (Exception_text e)
                   | Inr m \<Rightarrow> Manifest m)"
    and "parse_binary_xml U data \<noteq> Some (Error File_too_small)"
proof -
  show "scan_chunks data 8 = Some (Inl e) \<Longrightarrow>
           parse_binary_xml U data = Some (Error (Exception_text e))"
    by (simp add: parse_binary_xml_def try_body_long [OF assms])
  show "scan_chunks data 8 = Some (Inr strings) \<Longrightarrow>
           parse_binary_xml U data =
             Some (case classify U strings of
                     Inl e \<Rightarrow> Error (Exception_text e)
                   | Inr m \<Rightarrow> Manifest m)"
    by (simp add: parse_binary_xml_def try_body_long [OF assms] split: sum.splits)
  show "parse_binary_xml U data \<noteq> Some (Error File_too_small)"
    by (simp add: parse_binary_xml_def try_body_long [OF assms] split: option.splits sum.splits)
qed

lemma header_reads:
  assumes "int offset < int (length data) - 8"
  shows "\<exists>ty sz. unpack_I (py_slice data offset (offset + 4)) = Inr ty
           \<and> unpack_I (py_slice data (offset + 4) (offset + 8)) = Inr sz"
proof -
  obtain ty where ty: "unpack_I (py_slice data offset (offset + 4)) = Inr ty"
    using assms read_I_fails [of data offset]
    by (cases "unpack_I (py_slice data offset (offset + 4))") auto
  have s: "py_slice data (offset + 4) (offset + 8) = py_slice data (offset + 4) (offset + 4 + 4)"
    by (simp add: add.commute add.left_commute)
  obtain sz where sz: "unpack_I (py_slice data (offset + 4) (offset + 8)) = Inr sz"
    using assms read_I_fails [of data "offset + 4"] unfolding s
    by (cases "unpack_I (py_slice data (offset + 4) (offset + 4 + 4))") auto
  from ty sz show ?thesis by blast
qed

lemma scan_chunks_at_pool:
  assumes "int pool < int (length data) - 8"
    and "unpack_I (py_slice data pool (pool + 4)) = Inr 0x001C0001"
  shows "scan_chunks data pool = Some (read_string_pool data pool)"
proof -
  obtain ty sz where "unpack_I (py_slice data pool (pool + 4)) = Inr ty"
    "unpack_I (py_slice data (pool + 4) (pool + 8)) = Inr sz"
    using header_reads [OF assms(1)] by blast
  with assms show ?thesis by (subst scan_chunks.simps) simp
qed

lemma scan_chunks_step:
  assumes "int offset < int (length data) - 8"
    and "unpack_I (py_slice data offset (offset + 4)) = Inr ty"
    and "unpack_I (py_slice data (offset + 4) (offset + 8)) = Inr sz"
    and "ty \<noteq> 0x001C0001"
  shows "scan_chunks data offset = scan_chunks data (advance offset sz)"
  using assms by (subst scan_chunks.simps) simp

lemma scan_visits_same: "scan_visits data start offset \<Longrightarrow>
    scan_chunks data start = scan_chunks data offset"
proof (induction rule: scan_visits.induct)
  case visit_first
  show ?case by simp
next
  case (visit_next offset chunk_type chunk_size)
  from visit_next.IH scan_chunks_step [OF visit_next.hyps(2,3,4,5)] show ?case by simp
qed

lemma scan_visits_prepend:
  assumes "scan_visits data (advance offset sz) c"
    and "int offset < int (length data) - 8"
    and "unpack_I (py_slice data offset (offset + 4)) = Inr ty"
    and "unpack_I (py_slice data (offset + 4) (offset + 8)) = Inr sz"
    and "ty \<noteq> 0x001C0001"
  shows "scan_visits data offset c"
  using assms(1)
proof (induction rule: scan_visits.induct)
  case visit_first
  show ?case
    by (rule scan_visits.visit_next [OF scan_visits.visit_first assms(2,3,4,5)])
next
  case (visit_next c chunk_type chunk_size)
  show ?case
    by (rule scan_visits.visit_next [OF visit_next.IH visit_next.hyps(2,3,4,5)])
qed

lemma scan_visits_cases:
  "scan_visits data start c \<Longrightarrow>
     c = start
     \<or> (int start < int (length data) - 8
        \<and> (\<exists>ty sz. unpack_I (py_slice data start (start + 4)) = Inr ty
               \<and> unpack_I (py_slice data (start + 4) (start + 8)) = Inr sz
               \<and> ty \<noteq> 0x001C0001 \<and> scan_visits data (advance start sz) c))"
proof (induction rule: scan_visits.induct)
  case visit_first
  show ?case by simp
next
  case (visit_next offset chunk_type chunk_size)
  from visit_next.IH show ?case
  proof
    assume "offset = start"
    with visit_next.hyps(2,3,4,5) scan_visits.visit_first [of data "advance start chunk_size"]
    show ?thesis by blast
  next
    assume "int start < int (length data) - 8
        \<and> (\<exists>ty sz. unpack_I (py_slice data start (start + 4)) = Inr ty
               \<and> unpack_I (py_slice data (start + 4) (start + 8)) = Inr sz
               \<and> ty \<noteq> 0x001C0001 \<and> scan_visits data (advance start sz) offset)"
    then obtain ty sz where g: "int start < int (length data) - 8"
      and h: "unpack_I (py_slice data start (start + 4)) = Inr ty"
        "unpack_I (py_slice data (start + 4) (start + 8)) = Inr sz" "ty \<noteq> 0x001C0001"
      and v: "scan_visits data (advance start sz) offset"
      by blast
    have "scan_visits data (advance start sz) (advance offset chunk_size)"
      by (rule scan_visits.visit_next [OF v visit_next.hyps(2,3,4,5)])
    with g h show ?thesis by blast
  qed
qed

lemma scan_visits_before_pool:
  assumes "scan_visits data start c"
    and "scan_visits data start pool"
    and "unpack_I (py_slice data pool (pool + 4)) = Inr 0x001C0001"
  shows "scan_visits data c pool"
  using assms(1)
proof (induction rule: scan_visits.induct)
  case visit_first
  show ?case by (rule assms(2))
next
  case (visit_next offset chunk_type chunk_size)
  from scan_visits_cases [OF visit_next.IH] visit_next.hyps(3,4,5) assms(3)
  show ?case by auto
qed

lemma pool_found_unique:
  assumes "pool_found data p" and "pool_found data q"
  shows "p = q"
proof -
  have "scan_visits data q p"
    using assms by (auto simp: pool_found_def intro: scan_visits_before_pool)
  from scan_visits_cases [OF this] assms(2) show ?thesis
    by (auto simp: pool_found_def)
qed

lemma scan_chunks_result:
  "scan_chunks data offset = Some r \<Longrightarrow>
     (r = Inr [] \<and> (\<forall>c. scan_visits data offset c \<longrightarrow>
                      \<not> (int c < int (length data) - 8
                         \<and> unpack_I (py_slice data c (c + 4)) = Inr 0x001C0001)))
     \<or> (\<exists>pool. scan_visits data offset pool \<and> int pool < int (length data) - 8
           \<and> unpack_I (py_slice data pool (pool + 4)) = Inr 0x001C0001
           \<and> r = read_string_pool data pool)"
proof (induction "length data - offset" arbitrary: offset rule: less_induct)
  case less
  show ?case
  proof (cases "int offset < int (length data) - 8")
    case False
    with less.prems have r: "r = Inr []" by (subst (asm) scan_chunks.simps) simp
    have "c = offset" if "scan_visits data offset c" for c
      using scan_visits_cases [OF that] False by blast
    with False r show ?thesis by blast
  next
    case True
    then have dec: "length data - advance offset cs < length data - offset" for cs
      by (auto simp: advance_def)
    obtain ty sz where ty: "unpack_I (py_slice data offset (offset + 4)) = Inr ty"
      and sz: "unpack_I (py_slice data (offset + 4) (offset + 8)) = Inr sz"
      using header_reads [OF True] by blast
    show ?thesis
    proof (cases "ty = 0x001C0001")
      case t: True
      have "r = read_string_pool data offset"
        using scan_chunks_at_pool [OF True] ty t less.prems by simp
      with True ty t scan_visits.visit_first [of data offset] show ?thesis by blast
    next
      case f: False
      have "scan_chunks data (advance offset sz) = Some r"
        using scan_chunks_step [OF True ty sz f] less.prems by simp
      from less.hyps [OF dec this] show ?thesis
      proof
        assume a: "r = Inr [] \<and> (\<forall>c. scan_visits data (advance offset sz) c \<longrightarrow>
                      \<not> (int c < int (length data) - 8
                         \<and> unpack_I (py_slice data c (c + 4)) = Inr 0x001C0001))"
        have "\<not> (int c < int (length data) - 8
                   \<and> unpack_I (py_slice data c (c + 4)) = Inr 0x001C0001)"
          if "scan_visits data offset c" for c
          using scan_visits_cases [OF that] a ty sz f by auto
        with a show ?thesis by blast
      next
        assume "\<exists>pool. scan_visits data (advance offset sz) pool
           \<and> int pool < int (length data) - 8
           \<and> unpack_I (py_slice data pool (pool + 4)) = Inr 0x001C0001
           \<and> r = read_string_pool data pool"
        then obtain pool where p: "scan_visits data (advance offset sz) pool"
          "int pool < int (length data) - 8"
          "unpack_I (py_slice data pool (pool + 4)) = Inr 0x001C0001"
          "r = read_string_pool data pool"
          by blast
        have "scan_visits data offset pool"
          by (rule scan_visits_prepend [OF p(1) True ty sz f])
        with p show ?thesis by blast
      qed
    qed
  qed
qed

lemma scan_chunks_found:
  "pool_found data pool \<Longrightarrow> scan_chunks data 8 = Some (read_string_pool data pool)"
  using scan_visits_same [of data 8 pool] scan_chunks_at_pool [of pool data]
  by (simp add: pool_found_def)

lemma scan_chunks_not_found:
  assumes "\<forall>pool. \<not> pool_found data pool"
  shows "scan_chunks data 8 = Some (Inr [])"
proof -
  obtain r where r: "scan_chunks data 8 = Some r" using scan_chunks_returns by blast
  from scan_chunks_result [OF r] assms have "r = Inr []"
    by (auto simp: pool_found_def)
  with r show ?thesis by simp
qed

lemma scan_chunks_found_or_not:
  "(\<exists>pool. pool_found data pool) \<or> scan_chunks data 8 = Some (Inr [])"
  using scan_chunks_not_found by blast


lemma read_string_pool_truncated:
  "read_string_pool data pool = Inl e \<longleftrightarrow> e = Struct_error \<and> pool_truncated data pool"
  unfolding read_string_pool_fails pool_truncated_def
  by (auto split: sum.splits)

text \<open>
  C1 (amended).  For every buffer of at least 8 bytes the result is never the
  \<open>'File too small'\<close> error, but an error dictionary is still possible.  The scan finds
  at most one string pool, and its result is the result of reading that pool (the empty
  list when it finds none).  Reading a pool raises exactly when the pool is truncated,
  and the exception is \<open>struct.error\<close>.  Hence: when the pool that the scan found is
  truncated, the scan raises \<open>struct.error\<close> and the parse returns it as an error
  dictionary; in every other case (whatever the chunk sizes, the string offsets, the
  string lengths and the bytes of the strings, and also when there is no pool) the scan
  yields a list of strings, and the result of the parse is what the classifier makes of
  that list.
\<close>

theorem scanner_failures:
  assumes "8 \<le> length data"
  shows
  "parse_binary_xml U data \<noteq> Some (Error File_too_small)
   \<and> (\<forall>p. pool_found data p \<longrightarrow>
          scan_chunks data 8 = Some (read_string_pool data p)
          \<and> (\<forall>q. pool_found data q \<longrightarrow> q = p))
   \<and> ((\<forall>p. \<not> pool_found data p) \<longrightarrow> scan_chunks data 8 = Some (Inr []))
   \<and> (\<forall>p e. read_string_pool data p = Inl e \<longleftrightarrow> e = Struct_error \<and> pool_truncated data p)
   \<and> ((\<exists>p. pool_found data p \<and> pool_truncated data p) \<longrightarrow>
          scan_chunks data 8 = Some (Inl Struct_error)
          \<and> parse_binary_xml U data = Some (Error (Exception_text Struct_error)))
   \<and> (\<not> (\<exists>p. pool_found data p \<and> pool_truncated data p) \<longrightarrow>
          (\<exists>strings. scan_chunks data 8 = Some (Inr strings)
             \<and> parse_binary_xml U data =
                 Some (case classify U strings of
                         Inl e \<Rightarrow> Error (Exception_text e)
                       | Inr m \<Rightarrow> Manifest m)))"
proof -
  have 1: "parse_binary_xml U data \<noteq> Some (Error File_too_small)"
    using assms by (rule parse_long(3))
  have 2: "\<forall>p. pool_found data p \<longrightarrow>
          scan_chunks data 8 = Some (read_string_pool data p)
          \<and> (\<forall>q. pool_found data q \<longrightarrow> q = p)"
    using scan_chunks_found pool_found_unique by blast
  have 3: "(\<forall>p. \<not> pool_found data p) \<longrightarrow> scan_chunks data 8 = Some (Inr [])"
    using scan_chunks_not_found by blast
  have 4: "\<forall>p e. read_string_pool data p = Inl e \<longleftrightarrow>
             e = Struct_error \<and> pool_truncated data p"
    using read_string_pool_truncated by blast
  have 5: "(\<exists>p. pool_found data p \<and> pool_truncated data p) \<longrightarrow>
          scan_chunks data 8 = Some (Inl Struct_error)
          \<and> parse_binary_xml U data = Some (Error (Exception_text Struct_error))"
  proof
    assume "\<exists>p. pool_found data p \<and> pool_truncated data p"
    then obtain p where p: "pool_found data p" "pool_truncated data p" by blast
    from p(2) have "read_string_pool data p = Inl Struct_error"
      by (simp add: read_string_pool_truncated)
    with scan_chunks_found [OF p(1)] have s: "scan_chunks data 8 = Some (Inl Struct_error)"
      by simp
    from s parse_long(1) [OF assms s, of U]
    show "scan_chunks data 8 = Some (Inl Struct_error)
          \<and> parse_binary_xml U data = Some (Error (Exception_text Struct_error))"
      by simp
  qed
  have 6: "\<not> (\<exists>p. pool_found data p \<and> pool_truncated data p) \<longrightarrow>
          (\<exists>strings. scan_chunks data 8 = Some (Inr strings)
             \<and> parse_binary_xml U data =
                 Some (case classify U strings of
                         Inl e \<Rightarrow> Error (Exception_text e)
                       | Inr m \<Rightarrow> Manifest m))"
  proof
    assume n: "\<not> (\<exists>p. pool_found data p \<and> pool_truncated data p)"
    obtain r where r: "scan_chunks data 8 = Some r" using scan_chunks_returns by blast
    have "\<exists>strings. r = Inr strings"
    proof (cases r)
      case (Inr strings)
      then show ?thesis by simp
    next
      case (Inl e)
      with scan_chunks_result [OF r] obtain pool where
        "pool_found data pool" "read_string_pool data pool = Inl e"
        by (auto simp: pool_found_def)
      with n show ?thesis by (auto simp: read_string_pool_truncated)
    qed
    then obtain strings where s: "scan_chunks data 8 = Some (Inr strings)"
      using r by auto
    from s parse_long(2) [OF assms s, of U]
    show "\<exists>strings. scan_chunks data 8 = Some (Inr strings)
             \<and> parse_binary_xml U data =
                 Some (case classify U strings of
                         Inl e \<Rightarrow> Error (Exception_text e)
                       | Inr m \<Rightarrow> Manifest m)"
      by blast
  qed
  from 1 2 3 4 5 6 show ?thesis by blast
qed

lemma scan_anomalous_pool: "scan_chunks anomalous_pool 8 = Some (Inr [lit ''Hi'', lit ''A''])"
  by (simp add: anomalous_pool_def scan_eval lit_def upt_0_5)

lemma scan_truncated_pool: "scan_chunks truncated_pool 8 = Some (Inl Struct_error)"
  by (simp add: truncated_pool_def scan_eval)

lemma scan_superscript_pool: "scan_chunks superscript_pool 8 = Some (Inr [lit ''12345'', [178, 178, 178, 178, 178]])"
  by (simp add: superscript_pool_def scan_eval lit_def upt_0_2)

lemma found_anomalous_pool: "pool_found anomalous_pool 16 \<and> \<not> pool_truncated anomalous_pool 16"
proof -
  have "scan_visits anomalous_pool 8 (advance 8 8)"
    by (rule scan_visits.visit_next [OF scan_visits.visit_first, where chunk_type = "0x00080180"])
       (simp_all add: anomalous_pool_def unpack_I_def py_slice_def)
  then have "scan_visits anomalous_pool 8 16" by (simp add: advance_def)
  then show ?thesis
    by (simp add: pool_found_def pool_truncated_def anomalous_pool_def unpack_I_def py_slice_def)
qed

lemma found_truncated_table: "pool_found truncated_table 8 \<and> pool_truncated truncated_table 8"
  using scan_visits.visit_first [of truncated_table 8]
  by (simp add: pool_found_def pool_truncated_def truncated_table_def unpack_I_def py_slice_def)

lemma found_truncated_pool: "pool_found truncated_pool 8 \<and> pool_truncated truncated_pool 8"
  using scan_visits.visit_first [of truncated_pool 8]
  by (simp add: pool_found_def pool_truncated_def truncated_pool_def unpack_I_def py_slice_def)

lemma found_stray_marker:
  "pool_found stray_marker 8 \<and> \<not> pool_truncated stray_marker 8
   \<and> \<not> pool_found stray_marker 20 \<and> pool_truncated stray_marker 20
   \<and> scan_chunks stray_marker 8 = Some (Inr [])"
proof -
  have f: "pool_found stray_marker 8"
    using scan_visits.visit_first [of stray_marker 8]
    by (simp add: pool_found_def stray_marker_def unpack_I_def py_slice_def)
  have n: "\<not> pool_truncated stray_marker 8"
    by (simp add: pool_truncated_def stray_marker_def unpack_I_def py_slice_def)
  have "\<not> pool_found stray_marker 20"
    using pool_found_unique [OF f, of 20] by auto
  moreover have "pool_truncated stray_marker 20"
    by (simp add: pool_truncated_def stray_marker_def)
  moreover have "scan_chunks stray_marker 8 = Some (Inr [])"
    by (simp add: stray_marker_def scan_eval)
  ultimately show ?thesis using f n by blast
qed

theorem scanner_failures_witness:
  "8 \<le> length truncated_table
   \<and> pool_found truncated_table 8 \<and> pool_truncated truncated_table 8
   \<and> scan_chunks truncated_table 8 = Some (Inl Struct_error)
   \<and> parse_binary_xml ascii_db truncated_table = Some (Error (Exception_text Struct_error))
   \<and> 8 \<le> length truncated_pool
   \<and> pool_found truncated_pool 8 \<and> pool_truncated truncated_pool 8
   \<and> scan_chunks truncated_pool 8 = Some (Inl Struct_error)
   \<and> 8 \<le> length anomalous_pool
   \<and> pool_found anomalous_pool 16 \<and> \<not> pool_truncated anomalous_pool 16
   \<and> scan_chunks anomalous_pool 8 = Some (Inr [lit ''Hi'', lit ''A''])
   \<and> parse_binary_xml ascii_db anomalous_pool
       = Some (Manifest \<lparr>package = None, versionName = None, versionCode = None,
                         appLabel = None, permissions = []\<rparr>)"
proof -
  have l1: "8 \<le> length truncated_table" by (simp add: truncated_table_def)
  have l2: "8 \<le> length truncated_pool" by (simp add: truncated_pool_def)
  have l3: "8 \<le> length anomalous_pool" by (simp add: anomalous_pool_def)
  note t1 = scanner_failures [OF l1, of ascii_db]
  note t2 = scanner_failures [OF l2, of ascii_db]
  note t3 = scanner_failures [OF l3, of ascii_db]
  have a: "scan_chunks truncated_table 8 = Some (Inl Struct_error)
           \<and> parse_binary_xml ascii_db truncated_table
               = Some (Error (Exception_text Struct_error))"
    using t1 [THEN conjunct2, THEN conjunct2, THEN conjunct2, THEN conjunct2, THEN conjunct1]
      found_truncated_table by blast
  have b: "scan_chunks truncated_pool 8 = Some (Inl Struct_error)"
    using t2 [THEN conjunct2, THEN conjunct2, THEN conjunct2, THEN conjunct2, THEN conjunct1]
      found_truncated_pool by blast
  have u: "\<forall>q. pool_found anomalous_pool q \<longrightarrow> q = 16"
    using t3 [THEN conjunct2, THEN conjunct1] found_anomalous_pool by blast
  then have n: "\<not> (\<exists>p. pool_found anomalous_pool p \<and> pool_truncated anomalous_pool p)"
    using found_anomalous_pool by blast
  from t3 [THEN conjunct2, THEN conjunct2, THEN conjunct2, THEN conjunct2, THEN conjunct2] n
  obtain strings where s: "scan_chunks anomalous_pool 8 = Some (Inr strings)"
    and p: "parse_binary_xml ascii_db anomalous_pool =
              Some (case classify ascii_db strings of
                      Inl e \<Rightarrow> Error (Exception_text e)
                    | Inr m \<Rightarrow> Manifest m)"
    by blast
  from s scan_anomalous_pool have e: "strings = [lit ''Hi'', lit ''A'']" by simp
  have c: "classify ascii_db [lit ''Hi'', lit ''A'']
             = Inr \<lparr>package = None, versionName = None, versionCode = None,
                    appLabel = None, permissions = []\<rparr>"
    by code_simp
  have q: "parse_binary_xml ascii_db anomalous_pool
       = Some (Manifest \<lparr>package = None, versionName = None, versionCode = None,
                         appLabel = None, permissions = []\<rparr>)"
    using p unfolding e c by simp
  from l1 l2 l3 a b q found_truncated_table found_truncated_pool found_anomalous_pool
    scan_anomalous_pool
  show ?thesis by blast
qed

text \<open>
  The claim as written allows no error for a buffer of 8 bytes or more: the buffer that
  ends inside \<open>string_count\<close> has 18 bytes and its result is an error dictionary.
\<close>

theorem truncated_pool_counterexample:
  "8 \<le> length truncated_pool
   \<and> parse_binary_xml ascii_db truncated_pool = Some (Error (Exception_text Struct_error))"
proof -
  have l: "8 \<le> length truncated_pool" by (simp add: truncated_pool_def)
  from parse_long(1) [OF l scan_truncated_pool] l show ?thesis by simp
qed

section \<open>Version code\<close>

lemma version_code_step_candidate:
  assumes "code_candidate U s" and "py_int U s = Inr a"
    and "\<forall>v. acc = Some v \<longrightarrow> v \<noteq> [] \<and> (\<exists>b. py_int U v = Inr b)"
  shows "version_code_step U acc s =
           Inr (case acc of None \<Rightarrow> Some s
                | Some b \<Rightarrow> if int_value U s > int_value U b then Some s else Some b)"
proof (cases acc)
  case None
  with assms(1) show ?thesis by (simp add: version_code_step_def code_candidate_def)
next
  case (Some v)
  with assms(3) obtain b where "v \<noteq> []" "py_int U v = Inr b" by auto
  with Some assms(1,2) show ?thesis
    by (simp add: version_code_step_def code_candidate_def int_value_def)
qed

lemma version_code_step_other:
  "\<not> code_candidate U s \<Longrightarrow> version_code_step U acc s = Inr acc"
  by (auto simp: version_code_step_def code_candidate_def)

lemma version_code_loop:
  assumes "\<forall>s \<in> set strings. code_candidate U s \<longrightarrow> (\<exists>v. py_int U s = Inr v)"
    and "\<forall>v. acc = Some v \<longrightarrow> v \<noteq> [] \<and> (\<exists>b. py_int U v = Inr b)"
  shows "for_each (version_code_step U) acc strings =
           Inr (first_greatest (int_value U) acc (filter (code_candidate U) strings))"
  using assms
proof (induction strings arbitrary: acc)
  case Nil
  show ?case by simp
next
  case (Cons s strings)
  have rest: "\<forall>s \<in> set strings. code_candidate U s \<longrightarrow> (\<exists>v. py_int U s = Inr v)"
    using Cons.prems(1) by simp
  show ?case
  proof (cases "code_candidate U s")
    case False
    with Cons.IH [OF rest Cons.prems(2)] show ?thesis
      by (simp add: version_code_step_other)
  next
    case True
    then obtain a where a: "py_int U s = Inr a" using Cons.prems(1) by auto
    have ne: "s \<noteq> []" using True by (auto simp: code_candidate_def)
    let ?acc = "case acc of None \<Rightarrow> Some s
                | Some b \<Rightarrow> if int_value U s > int_value U b then Some s else Some b"
    have inv: "\<forall>v. ?acc = Some v \<longrightarrow> v \<noteq> [] \<and> (\<exists>b. py_int U v = Inr b)"
      using Cons.prems(2) a ne by (auto split: option.splits if_splits)
    show ?thesis
      using Cons.IH [OF rest inv] True
      by (simp add: version_code_step_candidate [OF True a Cons.prems(2)])
  qed
qed

lemma first_greatest_best:
  "first_greatest f best xs = None \<longleftrightarrow> best = None \<and> xs = []"
  by (induction xs arbitrary: best) (auto split: option.splits)

lemma first_greatest_max:
  "first_greatest f best xs = Some s \<Longrightarrow>
     (best = Some s \<or> s \<in> set xs)
     \<and> (\<forall>t \<in> set xs. f t \<le> f s) \<and> (\<forall>b. best = Some b \<longrightarrow> f b \<le> f s)"
proof (induction xs arbitrary: best)
  case Nil
  then show ?case by simp
next
  case (Cons x xs)
  let ?best = "case best of None \<Rightarrow> Some x
               | Some b \<Rightarrow> if f x > f b then Some x else Some b"
  from Cons.prems have "first_greatest f ?best xs = Some s" by simp
  from Cons.IH [OF this] show ?case
    by (cases best) (auto split: if_splits)
qed

lemma version_code_greatest:
  assumes "\<forall>s \<in> set strings. code_candidate U s \<longrightarrow> (\<exists>v. py_int U s = Inr v)"
  shows "find_version_code U strings =
           Inr (first_greatest (int_value U) None (filter (code_candidate U) strings))"
  unfolding find_version_code_def by (rule version_code_loop [OF assms]) simp


lemma version_example:
  "classify U [lit ''1.4.2'', lit ''123456789012'', lit ''87654321'']
     = Inr \<lparr>package = None, versionName = Some (lit ''1.4.2''),
            versionCode = Some (lit ''87654321''), appLabel = None, permissions = []\<rparr>"
  by code_simp

lemma py_int_example: "py_int U (lit ''0087654321'') = Inr 87654321"
  by (simp add: py_int_def decimal_c_def lit_def)

lemma version_code_numeric:
  "find_version_code U [lit ''99999'', lit ''0087654321'', lit ''100000'', lit ''87654321'']
     = Inr (Some (lit ''0087654321''))"
  by (simp add: find_version_code_def version_code_step_def isdigit_def isdigit_c_def
        py_int_def decimal_c_def lit_def)

text \<open>
  C5.  The claim holds on every pool whose candidates are accepted by \<open>int()\<close>
  (\<open>version_code_greatest\<close>, \<open>first_greatest_max\<close>), and on its own example
  (\<open>version_example\<close>).  The candidates are chosen by \<open>str.isdigit\<close>, however, which also
  accepts digits that \<open>int()\<close> rejects, such as the superscript two (U+00B2).  With a
  character table that says so, a pool holding \<open>12345\<close> and a string of five
  superscript twos makes the comparison of line 178 raise \<open>ValueError\<close>: the
  classification produces no record, and the parse of the buffer \<open>superscript_pool\<close>
  returns an error dictionary.
\<close>

theorem version_code_superscript:
  assumes "ucd_isdigit U 178" and "ucd_decimal U 178 = None"
  shows "find_version_code U [lit ''12345'', [178, 178, 178, 178, 178]]
           = Inl (Value_error [178, 178, 178, 178, 178])
   \<and> classify U [lit ''12345'', [178, 178, 178, 178, 178]]
           = Inl (Value_error [178, 178, 178, 178, 178])
   \<and> parse_binary_xml U superscript_pool
           = Some (Error (Exception_text (Value_error [178, 178, 178, 178, 178])))"
proof -
  have d: "isdigit U (lit ''12345'')" "isdigit U [178, 178, 178, 178, 178]"
    using assms by (simp_all add: isdigit_def isdigit_c_def lit_def)
  have i: "py_int U [178, 178, 178, 178, 178] = Inl (Value_error [178, 178, 178, 178, 178])"
    using assms by (simp add: py_int_def decimal_c_def)
  have 1: "find_version_code U [lit ''12345'', [178, 178, 178, 178, 178]]
           = Inl (Value_error [178, 178, 178, 178, 178])"
    using d i by (simp add: find_version_code_def version_code_step_def lit_def)
  have 2: "classify U [lit ''12345'', [178, 178, 178, 178, 178]]
           = Inl (Value_error [178, 178, 178, 178, 178])"
    by (simp add: classify_def Let_def 1)
  have l: "8 \<le> length superscript_pool" by (simp add: superscript_pool_def)
  have 3: "parse_binary_xml U superscript_pool
           = Some (Error (Exception_text (Value_error [178, 178, 178, 178, 178])))"
    using parse_long(2) [OF l scan_superscript_pool, of U] by (simp add: 2)
  from 1 2 3 show ?thesis by blast
qed

theorem version_code_superscript_witness:
  "ucd_isdigit superscript_db 178 \<and> ucd_decimal superscript_db 178 = None
   \<and> parse_binary_xml superscript_db superscript_pool
           = Some (Error (Exception_text (Value_error [178, 178, 178, 178, 178])))"
proof -
  have a: "ucd_isdigit superscript_db 178" by (simp add: superscript_db_def)
  have b: "ucd_decimal superscript_db 178 = None" by (simp add: superscript_db_def ascii_db_def)
  from version_code_superscript [OF a b] a b show ?thesis by blast
qed

end
